theory Spec2Isabelle
  imports Complex_Main "HOL-Library.Word" "HOL-Library.Monad_Syntax"
begin

section \<open>The live-conversation panel (LiveModule)\<close>

text \<open>
  The panel keeps two pieces of React state (\<open>isConnected\<close>, \<open>status\<close>), a log of at
  most five lines, and a handful of refs: the two audio contexts, the media stream, the
  session promise, the playback cursor \<open>nextStartTimeRef\<close> and the set of playing
  sources \<open>sourcesRef\<close>. The model is a record of these, followed by the parts of the
  browser the handlers act on: the buffer-source nodes that were started on the output
  context, the interval timers, and what \<open>sendRealtimeInput\<close> has sent.

  Times are JavaScript numbers in the source. The model takes them as exact rationals,
  so sums of durations are exact and not rounded to the nearest double.
\<close>

datatype conn_status = Disconnected | Connecting | Connected

record audio_context =
  sampleRate :: nat
  currentTime :: rat
  ctx_closed :: bool

datatype track_state = Live | Ended

datatype promise_state = Pending | Fulfilled | Rejected

text \<open>
  The session promise returned by \<open>ai.live.connect\<close>. Its callbacks were built inside
  the call of \<open>connect\<close> that opened it, so they see the \<open>status\<close> constant of the
  render in which that \<open>connect\<close> was created: \<open>rendered_status\<close>.
\<close>

record session =
  promise :: promise_state
  rendered_status :: conn_status
  close_calls :: nat

text \<open>
  An \<open>AudioBufferSourceNode\<close> on which \<open>start\<close> has been called: the time it was
  scheduled at, the duration of its buffer, and whether \<open>stop\<close> has been called on it.
\<close>

record source_node =
  start_at :: rat
  duration :: rat
  stopped :: bool

datatype media = PcmBlob "int list" | JpegFrame string

text \<open>
  An interval created by \<open>setInterval\<close> in \<open>startVideoStreaming\<close>. Its callback closes
  over the 2d context \<open>ctx\<close> and over the \<open>status\<close> constant of the render that built
  \<open>startVideoStreaming\<close>.
\<close>

record interval =
  has_ctx :: bool
  seen_status :: conn_status
  cleared :: bool

record live_state =
  isConnected :: bool
  status :: conn_status
  logs :: "string list"
  videoRef :: bool
  canvasRef :: bool
  inputAudioContextRef :: "audio_context option"
  outputAudioContextRef :: "audio_context option"
  streamRef :: "track_state list option"
  sessionPromiseRef :: "session option"
  nextStartTimeRef :: rat
  sourcesRef :: "nat list"
  nodes :: "source_node list"
  intervals :: "interval list"
  processors :: nat
  sent :: "media list"

text \<open>The state of a freshly mounted panel: the initial values of \<open>useState\<close> and \<open>useRef\<close>.\<close>

definition mounted :: live_state where
  "mounted = \<lparr> isConnected = False, status = Disconnected, logs = [],
     videoRef = True, canvasRef = True,
     inputAudioContextRef = None, outputAudioContextRef = None,
     streamRef = None, sessionPromiseRef = None,
     nextStartTimeRef = 0, sourcesRef = [], nodes = [], intervals = [],
     processors = 0, sent = [] \<rparr>"

text \<open>\<open>addLog\<close>: \<open>setLogs(prev => [msg, ...prev].slice(0, 5))\<close>.\<close>

definition addLog :: "string \<Rightarrow> live_state \<Rightarrow> live_state" where
  "addLog msg st = st\<lparr> logs := take 5 (msg # logs st) \<rparr>"

subsection \<open>Playback\<close>

text \<open>
  \<open>stopAudioPlayback\<close>: \<open>stop()\<close> on every source of the set, \<open>clear()\<close>, cursor to 0.
  Every member of the set has had \<open>start\<close> called on it (\<open>playAudio\<close> starts a source
  before adding it), which is what \<open>stop\<close> requires.
\<close>

definition stop_node :: "nat \<Rightarrow> source_node list \<Rightarrow> source_node list" where
  "stop_node i ns = (if i < length ns then ns[i := (ns ! i)\<lparr> stopped := True \<rparr>] else ns)"

definition stopAudioPlayback :: "live_state \<Rightarrow> live_state" where
  "stopAudioPlayback st =
     st\<lparr> nodes := fold stop_node (sourcesRef st) (nodes st),
         sourcesRef := [],
         nextStartTimeRef := 0 \<rparr>"

text \<open>
  \<open>playAudio\<close> is an \<open>async\<close> function with one \<open>await\<close>. Up to the \<open>await\<close> it
  returns at once when there is no output context, and otherwise raises the cursor to
  the output clock.
\<close>

definition playAudio_begin :: "live_state \<Rightarrow> live_state" where
  "playAudio_begin st =
     (case outputAudioContextRef st of
        None \<Rightarrow> st
      | Some ctx \<Rightarrow> st\<lparr> nextStartTimeRef := max (nextStartTimeRef st) (currentTime ctx) \<rparr>)"

text \<open>
  What follows the \<open>await\<close>. The argument is what \<open>decodeAudioData\<close> (of
  \<open>utils/audioUtils\<close>) gives for the segment: the duration of the decoded buffer, or
  \<open>None\<close> when \<open>atob\<close> or the decoder throws, which rejects the promise of \<open>playAudio\<close>
  and runs none of the lines below. The new source is created, started at the cursor,
  the cursor moves on by the duration, and the source joins the set.
\<close>

definition playAudio_resume :: "rat option \<Rightarrow> live_state \<Rightarrow> live_state" where
  "playAudio_resume decoded st =
     (case decoded of
        None \<Rightarrow> st
      | Some d \<Rightarrow>
          let source = \<lparr> start_at = nextStartTimeRef st, duration = d, stopped = False \<rparr>
          in st\<lparr> nodes := nodes st @ [source],
                 nextStartTimeRef := nextStartTimeRef st + d,
                 sourcesRef := sourcesRef st @ [length (nodes st)] \<rparr>)"

text \<open>\<open>playAudio\<close> from call to completion, with no other handler run at its \<open>await\<close>.\<close>

definition playAudio :: "rat option \<Rightarrow> live_state \<Rightarrow> live_state" where
  "playAudio decoded st =
     (case outputAudioContextRef st of
        None \<Rightarrow> st
      | Some ctx \<Rightarrow> playAudio_resume decoded (playAudio_begin st))"

text \<open>\<open>source.onended\<close>: the source leaves the set.\<close>

definition onended :: "nat \<Rightarrow> live_state \<Rightarrow> live_state" where
  "onended i st = st\<lparr> sourcesRef := removeAll i (sourcesRef st) \<rparr>"

text \<open>The output context's clock moves on by itself while the context is running.\<close>

definition clock_advance :: "rat \<Rightarrow> live_state \<Rightarrow> live_state" where
  "clock_advance dt st =
     (case outputAudioContextRef st of
        None \<Rightarrow> st
      | Some ctx \<Rightarrow>
          if ctx_closed ctx then st
          else st\<lparr> outputAudioContextRef := Some (ctx\<lparr> currentTime := currentTime ctx + dt \<rparr>) \<rparr>)"

subsection \<open>Teardown\<close>

definition close_context :: "audio_context option \<Rightarrow> audio_context option" where
  "close_context c = map_option (\<lambda>ctx. ctx\<lparr> ctx_closed := True \<rparr>) c"

text \<open>
  \<open>sessionPromiseRef.current?.then(s => s.close())\<close>: the callback runs when the
  promise is fulfilled; a promise that is pending at this moment is taken as not
  running it here, a rejected one never runs it.
\<close>

definition close_session :: "session option \<Rightarrow> session option" where
  "close_session p =
     map_option (\<lambda>s. if promise s = Fulfilled then s\<lparr> close_calls := Suc (close_calls s) \<rparr> else s) p"

definition disconnect :: "live_state \<Rightarrow> live_state" where
  "disconnect st =
     stopAudioPlayback
       (st\<lparr> sessionPromiseRef := close_session (sessionPromiseRef st),
            isConnected := False,
            status := Disconnected,
            streamRef := map_option (map (\<lambda>t. Ended)) (streamRef st),
            inputAudioContextRef := close_context (inputAudioContextRef st),
            outputAudioContextRef := close_context (outputAudioContextRef st) \<rparr>)"

text \<open>The \<open>onclose\<close> and \<open>onerror\<close> callbacks given to \<open>ai.live.connect\<close>.\<close>

definition onclose :: "live_state \<Rightarrow> live_state" where
  "onclose st = disconnect (addLog ''Session Closed'' st)"

definition onerror :: "live_state \<Rightarrow> live_state" where
  "onerror st = disconnect (addLog ''Session Error (check console)'' st)"

subsection \<open>Capture\<close>

text \<open>
  \<open>session.sendRealtimeInput\<close> belongs to the vendor SDK. Whether a call goes through
  or throws is decided outside the panel, so it is an argument of the handlers.
\<close>

datatype send_outcome = SendOk | SendThrows

text \<open>
  \<open>sessionPromiseRef.current?.then(session => { session.sendRealtimeInput(m) })\<close>.
  An exception thrown inside the \<open>then\<close> callback rejects the promise that \<open>then\<close>
  returns; nothing holds that promise, so the exception goes no further.
\<close>

definition send_media :: "media \<Rightarrow> send_outcome \<Rightarrow> live_state \<Rightarrow> live_state" where
  "send_media m outcome st =
     (case sessionPromiseRef st of
        None \<Rightarrow> st
      | Some s \<Rightarrow>
          if promise s = Fulfilled \<and> outcome = SendOk then st\<lparr> sent := sent st @ [m] \<rparr> else st)"

text \<open>
  The \<open>onaudioprocess\<close> callback installed by \<open>setupAudioInput\<close>. \<open>pcmBlob\<close> is what
  \<open>createPcmBlob\<close> (of \<open>utils/audioUtils\<close>) makes of the captured samples.
\<close>

definition onaudioprocess :: "int list \<Rightarrow> send_outcome \<Rightarrow> live_state \<Rightarrow> live_state" where
  "onaudioprocess pcmBlob outcome st = send_media (PcmBlob pcmBlob) outcome st"

definition setupAudioInput :: "live_state \<Rightarrow> live_state" where
  "setupAudioInput st =
     (if inputAudioContextRef st = None \<or> streamRef st = None then st
      else st\<lparr> processors := Suc (processors st) \<rparr>)"

text \<open>
  \<open>startVideoStreaming\<close>, as built by the render whose \<open>status\<close> constant is the first
  argument. \<open>getContext('2d')\<close> may give null; that is the second argument.
\<close>

definition startVideoStreaming :: "conn_status \<Rightarrow> bool \<Rightarrow> live_state \<Rightarrow> live_state" where
  "startVideoStreaming rendered ctx2d st =
     (if \<not> canvasRef st \<or> \<not> videoRef st then st
      else st\<lparr> intervals := intervals st @
             [\<lparr> has_ctx = ctx2d, seen_status = rendered, cleared = False \<rparr>] \<rparr>)"

text \<open>
  One firing of interval \<open>k\<close>: the callback given to \<open>setInterval\<close>. It compares the
  \<open>status\<close> constant it closed over, not the panel's current state.
\<close>

definition interval_tick :: "nat \<Rightarrow> string \<Rightarrow> send_outcome \<Rightarrow> live_state \<Rightarrow> live_state" where
  "interval_tick k frame outcome st =
     (if k < length (intervals st) \<and> \<not> cleared (intervals st ! k) then
        let iv = intervals st ! k in
        if \<not> has_ctx iv \<or> \<not> videoRef st \<or> seen_status iv \<noteq> Connected
        then st\<lparr> intervals := (intervals st)[k := iv\<lparr> cleared := True \<rparr>] \<rparr>
        else send_media (JpegFrame frame) outcome st
      else st)"

text \<open>The \<open>onopen\<close> callback of the session held by \<open>sessionPromiseRef\<close>; it calls the
  \<open>startVideoStreaming\<close> of the render that built it.\<close>

definition onopen :: "bool \<Rightarrow> live_state \<Rightarrow> live_state" where
  "onopen ctx2d st =
     (case sessionPromiseRef st of
        None \<Rightarrow> st
      | Some s \<Rightarrow>
          startVideoStreaming (rendered_status s) ctx2d
            (setupAudioInput
               ((addLog ''Session Connected!'' st)
                  \<lparr> status := Connected, isConnected := True,
                    sessionPromiseRef := Some (s\<lparr> promise := Fulfilled \<rparr>) \<rparr>)))"

text \<open>
  \<open>connect\<close>, as built by the render whose \<open>status\<close> constant is \<open>rendered\<close>.
  \<open>getUserMedia\<close> resolves to a stream of two tracks or rejects with a message; the
  rejection is caught, logged, and sets the status back.
\<close>

definition connect :: "conn_status \<Rightarrow> string option \<Rightarrow> live_state \<Rightarrow> live_state" where
  "connect rendered media_error st =
     (let st1 = (addLog ''Initializing audio contexts...'' (st\<lparr> status := Connecting \<rparr>))
                  \<lparr> inputAudioContextRef :=
                      Some \<lparr> sampleRate = 16000, currentTime = 0, ctx_closed = False \<rparr>,
                    outputAudioContextRef :=
                      Some \<lparr> sampleRate = 24000, currentTime = 0, ctx_closed = False \<rparr> \<rparr>
      in case media_error of
           Some msg \<Rightarrow> (addLog (''Error: '' @ msg) st1)\<lparr> status := Disconnected \<rparr>
         | None \<Rightarrow>
             (addLog ''Connecting to Gemini Live...'' (st1\<lparr> streamRef := Some [Live, Live] \<rparr>))
               \<lparr> sessionPromiseRef :=
                   Some \<lparr> promise = Pending, rendered_status = rendered, close_calls = 0 \<rparr> \<rparr>)"

text \<open>The round button: \<open>onClick={isConnected ? disconnect : connect}\<close>, of the current render.\<close>

definition button_click :: "string option \<Rightarrow> live_state \<Rightarrow> live_state" where
  "button_click media_error st =
     (if isConnected st then disconnect st else connect (status st) media_error st)"

subsection \<open>Runs of the panel\<close>

text \<open>
  The \<open>onmessage\<close> callback, up to the point where it returns: a message with audio
  starts \<open>playAudio\<close>, which is not awaited, and a message marked as interrupted is
  logged and handled by \<open>stopAudioPlayback\<close>. The rest of a started \<open>playAudio\<close> runs
  later, as \<open>playAudio_resume\<close>, if there was an output context.
\<close>

definition onmessage :: "bool \<Rightarrow> bool \<Rightarrow> live_state \<Rightarrow> live_state" where
  "onmessage has_audio interrupted st =
     (let st1 = (if has_audio then playAudio_begin st else st)
      in if interrupted then stopAudioPlayback (addLog ''Interrupted by user'' st1) else st1)"

text \<open>
  What can happen to a mounted panel: the user clicks the round button, the session
  opens, closes or fails, a message arrives, the decoder hands over a segment, a source
  finishes playing, the script processor hands over a buffer, an interval fires, time
  passes. Each handler runs to its end, or to its \<open>await\<close>, before the next one starts.
\<close>

datatype event =
    Click "string option"
  | Open bool
  | Message bool bool
  | Decoded "rat option"
  | SourceEnded nat
  | Close
  | Error
  | Capture "int list" send_outcome
  | Tick nat string send_outcome
  | Clock rat

fun handle :: "event \<Rightarrow> live_state \<Rightarrow> live_state" where
  "handle (Click media_error) st = button_click media_error st"
| "handle (Open ctx2d) st = onopen ctx2d st"
| "handle (Message has_audio interrupted) st = onmessage has_audio interrupted st"
| "handle (Decoded decoded) st =
     (if outputAudioContextRef st = None then st else playAudio_resume decoded st)"
| "handle (SourceEnded i) st = onended i st"
| "handle Close st = onclose st"
| "handle Error st = onerror st"
| "handle (Capture pcmBlob outcome) st = onaudioprocess pcmBlob outcome st"
| "handle (Tick k frame outcome) st = interval_tick k frame outcome st"
| "handle (Clock dt) st = clock_advance dt st"

definition run :: "event list \<Rightarrow> live_state" where
  "run evs = fold handle evs mounted"

subsection \<open>Vocabulary for the playback schedule\<close>

definition clock_now :: "live_state \<Rightarrow> rat" where
  "clock_now st = (case outputAudioContextRef st of None \<Rightarrow> 0 | Some ctx \<Rightarrow> currentTime ctx)"







definition two_queued :: live_state where
  "two_queued = run [Click None, Open True, Message True False, Decoded (Some (1 / 2)),
                     Message True False, Decoded (Some (3 / 10))]"


text \<open>What holds of the closed-over \<open>status\<close> constants in every run.\<close>

definition is_frame :: "media \<Rightarrow> bool" where
  "is_frame m = (case m of JpegFrame _ \<Rightarrow> True | PcmBlob _ \<Rightarrow> False)"

definition stale :: "live_state \<Rightarrow> bool" where
  "stale st =
     ((status st = Connected \<longrightarrow> isConnected st) \<and>
      (\<forall>s. sessionPromiseRef st = Some s \<longrightarrow> rendered_status s \<noteq> Connected) \<and>
      (\<forall>iv \<in> set (intervals st). seen_status iv \<noteq> Connected) \<and>
      (\<forall>m \<in> set (sent st). \<not> is_frame m))"

definition sources_known :: "live_state \<Rightarrow> bool" where
  "sources_known st = (\<forall>i \<in> set (sourcesRef st). i < length (nodes st))"

section \<open>The audio panel (AudioModule): \<open>audioBufferToWav\<close>\<close>

text \<open>
  Samples are JavaScript numbers. The model keeps the values that are not numbers
  apart and takes the finite ones as exact rationals, so a product such as
  \<open>sample * 32767\<close> is exact here and rounded to a double in the source.
\<close>

datatype js_number = Finite rat | NaN | PosInf | NegInf

fun js_le :: "js_number \<Rightarrow> js_number \<Rightarrow> bool" where
  "js_le NaN _ = False"
| "js_le _ NaN = False"
| "js_le NegInf _ = True"
| "js_le _ PosInf = True"
| "js_le (Finite a) (Finite b) = (a \<le> b)"
| "js_le _ _ = False"

definition Math_min :: "js_number \<Rightarrow> js_number \<Rightarrow> js_number" where
  "Math_min a b = (if a = NaN \<or> b = NaN then NaN else if js_le a b then a else b)"

definition Math_max :: "js_number \<Rightarrow> js_number \<Rightarrow> js_number" where
  "Math_max a b = (if a = NaN \<or> b = NaN then NaN else if js_le a b then b else a)"

text \<open>\<open>k + x\<close> and \<open>x * k\<close> for a finite literal \<open>k\<close>, positive in the second.\<close>

fun js_plus :: "rat \<Rightarrow> js_number \<Rightarrow> js_number" where
  "js_plus k (Finite a) = Finite (k + a)"
| "js_plus k x = x"

fun js_times :: "js_number \<Rightarrow> rat \<Rightarrow> js_number" where
  "js_times (Finite a) k = Finite (a * k)"
| "js_times x k = x"

text \<open>\<open>x < 0\<close>.\<close>

fun js_negative :: "js_number \<Rightarrow> bool" where
  "js_negative (Finite a) = (a < 0)"
| "js_negative NegInf = True"
| "js_negative _ = False"

text \<open>\<open>x | 0\<close>: truncate towards zero, wrap into 32 bits; 0 for what is not finite.\<close>

definition js_trunc :: "rat \<Rightarrow> int" where
  "js_trunc r = (if 0 \<le> r then \<lfloor>r\<rfloor> else \<lceil>r\<rceil>)"

fun ToInt32 :: "js_number \<Rightarrow> int" where
  "ToInt32 (Finite a) = (js_trunc a + 2 ^ 31) mod 2 ^ 32 - 2 ^ 31"
| "ToInt32 _ = 0"

text \<open>
  The two lines of the inner loop that turn a sample into the integer handed to
  \<open>setInt16\<close>: clamp, then \<open>(0.5 + sample < 0 ? sample * 32768 : sample * 32767)|0\<close>.
\<close>

definition scale_sample :: "js_number \<Rightarrow> int" where
  "scale_sample x =
     (let sample = Math_max (Finite (- 1)) (Math_min (Finite 1) x)
      in ToInt32 (if js_negative (js_plus (1 / 2) sample)
                  then js_times sample 32768 else js_times sample 32767))"

type_synonym bytes = "8 word list"

text \<open>The low \<open>w\<close> bytes of an integer, least significant first.\<close>

definition le_bytes :: "nat \<Rightarrow> int \<Rightarrow> bytes" where
  "le_bytes w v = map (\<lambda>k. word_of_int (v div 256 ^ k)) [0..<w]"

text \<open>A \<open>DataView\<close> write: \<open>None\<close> is the \<open>RangeError\<close> of a write past the end.\<close>

definition write_bytes :: "nat \<Rightarrow> bytes \<Rightarrow> bytes \<Rightarrow> bytes option" where
  "write_bytes byteOffset bs v =
     (if byteOffset + length bs \<le> length v
      then Some (take byteOffset v @ bs @ drop (byteOffset + length bs) v)
      else None)"

text \<open>
  An \<open>AudioBuffer\<close>: \<open>numberOfChannels\<close> is the number of channel arrays. Reading a
  typed array past its end gives \<open>undefined\<close>, which \<open>Math.min\<close> turns into \<open>NaN\<close>.
\<close>

record audio_buffer =
  ab_sampleRate :: nat
  ab_length :: nat
  ab_channels :: "js_number list list"

definition numberOfChannels :: "audio_buffer \<Rightarrow> nat" where
  "numberOfChannels b = length (ab_channels b)"

definition channel_sample :: "js_number list list \<Rightarrow> nat \<Rightarrow> nat \<Rightarrow> js_number" where
  "channel_sample channels i p =
     (if i < length channels \<and> p < length (channels ! i) then channels ! i ! p else NaN)"

text \<open>
  The local variables of \<open>audioBufferToWav\<close> that change: the view on the buffer,
  \<open>pos\<close> and \<open>offset\<close>. \<open>written\<close> is not in the source: it lists, in order, the
  integers that were handed to \<open>view.setInt16\<close>.
\<close>

record wav_writer =
  view :: bytes
  pos :: nat
  offset :: nat
  written :: "int list"

text \<open>The inner helpers \<open>setUint16\<close> and \<open>setUint32\<close>: write at \<open>pos\<close>, advance \<open>pos\<close>.\<close>

definition setUint16 :: "nat \<Rightarrow> wav_writer \<Rightarrow> wav_writer option" where
  "setUint16 data w =
     map_option (\<lambda>v. w\<lparr> view := v, pos := pos w + 2 \<rparr>)
       (write_bytes (pos w) (le_bytes 2 (int data)) (view w))"

definition setUint32 :: "nat \<Rightarrow> wav_writer \<Rightarrow> wav_writer option" where
  "setUint32 data w =
     map_option (\<lambda>v. w\<lparr> view := v, pos := pos w + 4 \<rparr>)
       (write_bytes (pos w) (le_bytes 4 (int data)) (view w))"

text \<open>\<open>view.setInt16(44 + offset, sample, true); offset += 2\<close>.\<close>

definition setInt16 :: "int \<Rightarrow> wav_writer \<Rightarrow> wav_writer option" where
  "setInt16 sample w =
     map_option (\<lambda>v. w\<lparr> view := v, offset := offset w + 2, written := written w @ [sample] \<rparr>)
       (write_bytes (44 + offset w) (le_bytes 2 sample) (view w))"

text \<open>The \<open>for\<close> loop over the channels, from channel \<open>i\<close> on.\<close>

function interleave :: "audio_buffer \<Rightarrow> nat \<Rightarrow> wav_writer \<Rightarrow> wav_writer option" where
  "interleave b i w =
     (if i < numberOfChannels b
      then (case setInt16 (scale_sample (channel_sample (ab_channels b) i (pos w))) w of
              None \<Rightarrow> None
            | Some w' \<Rightarrow> interleave b (Suc i) w')
      else Some w)"
  by pat_completeness auto
termination
  by (relation "measure (\<lambda>(b, i, w). numberOfChannels b - i)") auto

text \<open>The \<open>while (pos < buffer.length)\<close> loop.\<close>

function wav_loop :: "audio_buffer \<Rightarrow> wav_writer \<Rightarrow> wav_writer option" where
  "wav_loop b w =
     (if pos w < ab_length b
      then (case interleave b 0 w of
              None \<Rightarrow> None
            | Some w' \<Rightarrow> wav_loop b (w'\<lparr> pos := Suc (pos w) \<rparr>))
      else Some w)"
  by pat_completeness auto
termination
  by (relation "measure (\<lambda>(b, w). ab_length b - pos w)") auto

text \<open>
  The body of \<open>audioBufferToWav\<close>. The header helpers and the sample loop share the
  one variable \<open>pos\<close>, so the loop starts with \<open>pos\<close> at 44.
\<close>

definition wav_encode :: "audio_buffer \<Rightarrow> wav_writer option" where
  "wav_encode buffer =
     (let numOfChan = numberOfChannels buffer;
          length = ab_length buffer * numOfChan * 2 + 44
      in do {
        w \<leftarrow> setUint32 0x46464952
               \<lparr> view = replicate length 0, pos = 0, offset = 0, written = [] \<rparr>;
        w \<leftarrow> setUint32 (length - 8) w;
        w \<leftarrow> setUint32 0x45564157 w;
        w \<leftarrow> setUint32 0x20746d66 w;
        w \<leftarrow> setUint32 16 w;
        w \<leftarrow> setUint16 1 w;
        w \<leftarrow> setUint16 numOfChan w;
        w \<leftarrow> setUint32 (ab_sampleRate buffer) w;
        w \<leftarrow> setUint32 (ab_sampleRate buffer * 2 * numOfChan) w;
        w \<leftarrow> setUint16 (numOfChan * 2) w;
        w \<leftarrow> setUint16 16 w;
        w \<leftarrow> setUint32 0x61746164 w;
        w \<leftarrow> setUint32 (length - pos w - 4) w;
        wav_loop buffer w
      })"

definition audioBufferToWav :: "audio_buffer \<Rightarrow> bytes option" where
  "audioBufferToWav buffer = map_option view (wav_encode buffer)"

text \<open>A stereo buffer of 46 frames, silent but for its last two frames.\<close>

definition two_channels :: audio_buffer where
  "two_channels = \<lparr> ab_sampleRate = 24000, ab_length = 46,
     ab_channels = [replicate 44 (Finite 0) @ [Finite 2, Finite (1 / 3)],
                    replicate 44 (Finite 0) @ [Finite (- 3 / 4), NaN]] \<rparr>"

section \<open>The chat service and the chat panel\<close>

datatype ChatModelType = PRO | FLASH_SEARCH | FLASH_LITE

fun model_id :: "ChatModelType \<Rightarrow> string" where
  "model_id PRO = ''gemini-3-pro-preview''"
| "model_id FLASH_SEARCH = ''gemini-3-flash-preview''"
| "model_id FLASH_LITE = ''gemini-flash-lite-latest''"

record grounding_url =
  title :: string
  uri :: string

datatype chat_role = UserRole | ModelRole

record ChatMessage =
  role :: chat_role
  msg_text :: string
  msg_images :: "string list option"
  msg_videos :: "string list option"
  isThinking :: "bool option"
  timestamp :: nat
  msg_groundingUrls :: "grounding_url list option"

datatype part = TextPart string | InlineData string string

datatype tool = GoogleSearch

record gen_config =
  systemInstruction :: "string option"
  thinkingBudget :: "nat option"
  tools :: "tool list option"

record gen_request =
  model :: string
  parts :: "part list"
  config :: gen_config

text \<open>What \<open>sendChatMessage\<close> reads of a response: its text and its grounding chunks.\<close>

record gen_response =
  response_text :: "string option"
  groundingChunks :: "grounding_url option list option"

record chat_result =
  result_text :: string
  groundingUrls :: "grounding_url list option"

text \<open>
  The argument of \<open>ai.models.generateContent\<close> that \<open>sendChatMessage\<close> builds. An
  absent or empty \<open>systemInstruction\<close> is falsy and sets nothing.
\<close>

definition chat_request ::
  "ChatModelType \<Rightarrow> string \<Rightarrow> ChatMessage list \<Rightarrow> string list \<Rightarrow> string list \<Rightarrow> bool \<Rightarrow>
   string option \<Rightarrow> gen_request" where
  "chat_request modelType message history images videos isThinkingMode sysInstruction =
     (let config0 = \<lparr> systemInstruction =
                         (case sysInstruction of
                            None \<Rightarrow> None
                          | Some s \<Rightarrow> if s = [] then None else Some s),
                      thinkingBudget = None, tools = None \<rparr>
      in \<lparr> model = (if isThinkingMode then ''gemini-3-pro-preview'' else model_id modelType),
           parts = TextPart message
                   # map (InlineData ''image/jpeg'') images
                   @ map (InlineData ''video/mp4'') videos,
           config = (if isThinkingMode then config0\<lparr> thinkingBudget := Some 32768 \<rparr>
                     else if modelType = FLASH_SEARCH then config0\<lparr> tools := Some [GoogleSearch] \<rparr>
                     else config0) \<rparr>)"

definition chat_reply :: "gen_response \<Rightarrow> chat_result" where
  "chat_reply response =
     \<lparr> result_text =
         (case response_text response of
            None \<Rightarrow> ''No text response generated.''
          | Some t \<Rightarrow> if t = [] then ''No text response generated.'' else t),
       groundingUrls = map_option (\<lambda>chunks. map the (filter (\<lambda>w. w \<noteq> None) chunks))
                         (groundingChunks response) \<rparr>"

text \<open>
  \<open>sendChatMessage\<close>. The remote service is its first argument: what it answers to a
  request, or the error it rejects with, which \<open>sendChatMessage\<close> passes on.
\<close>

definition sendChatMessage ::
  "(gen_request \<Rightarrow> string + gen_response) \<Rightarrow> ChatModelType \<Rightarrow> string \<Rightarrow> ChatMessage list \<Rightarrow>
   string list \<Rightarrow> string list \<Rightarrow> bool \<Rightarrow> string option \<Rightarrow> string + chat_result" where
  "sendChatMessage generateContent modelType message history images videos isThinkingMode
     sysInstruction =
     (case generateContent
             (chat_request modelType message history images videos isThinkingMode sysInstruction) of
        Inl err \<Rightarrow> Inl err
      | Inr response \<Rightarrow> Inr (chat_reply response))"

text \<open>
  The three settings of the chat panel and the \<open>onClick\<close> handlers of its three
  buttons. A handler reads the constants of the render it was built in, so the test
  after the first setter sees the value from before the click.
\<close>

record chat_settings =
  useSearch :: bool
  useThinking :: bool
  useFast :: bool

datatype toggle = Reasoning | Search | Fast

fun click :: "toggle \<Rightarrow> chat_settings \<Rightarrow> chat_settings" where
  "click Reasoning s =
     (let s1 = s\<lparr> useThinking := \<not> useThinking s \<rparr>
      in if \<not> useThinking s then s1\<lparr> useFast := False, useSearch := False \<rparr> else s1)"
| "click Search s =
     (let s1 = s\<lparr> useSearch := \<not> useSearch s \<rparr>
      in if \<not> useSearch s then s1\<lparr> useFast := False, useThinking := False \<rparr> else s1)"
| "click Fast s =
     (let s1 = s\<lparr> useFast := \<not> useFast s \<rparr>
      in if \<not> useFast s then s1\<lparr> useThinking := False, useSearch := False \<rparr> else s1)"

fun flag :: "toggle \<Rightarrow> chat_settings \<Rightarrow> bool" where
  "flag Reasoning s = useThinking s"
| "flag Search s = useSearch s"
| "flag Fast s = useFast s"

definition at_most_one :: "chat_settings \<Rightarrow> bool" where
  "at_most_one s =
     (\<not> (useThinking s \<and> useSearch s) \<and> \<not> (useThinking s \<and> useFast s) \<and>
      \<not> (useSearch s \<and> useFast s))"

section \<open>Properties of the live panel\<close>

subsection \<open>Evaluating a run\<close>

lemmas live_defs =
  run_def button_click_def connect_def onopen_def setupAudioInput_def startVideoStreaming_def
  playAudio_def playAudio_begin_def playAudio_resume_def onmessage_def stopAudioPlayback_def
  clock_advance_def interval_tick_def send_media_def addLog_def mounted_def clock_now_def Let_def

subsection \<open>Frame lemmas\<close>

lemma fold_stop_node_length: "length (fold stop_node is ns) = length ns"
  by (induction "is" arbitrary: ns) (simp_all add: stop_node_def)

lemma stop_node_keeps: "j < length ns \<Longrightarrow> stopped (ns ! j) \<Longrightarrow> stopped (stop_node i ns ! j)"
  by (cases "i = j") (simp_all add: stop_node_def)

lemma fold_stop_node_keeps:
  "j < length ns \<Longrightarrow> stopped (ns ! j) \<Longrightarrow> stopped (fold stop_node is ns ! j)"
proof (induction "is" arbitrary: ns)
  case Nil
  then show ?case by simp
next
  case (Cons i "is")
  have "j < length (stop_node i ns)" using Cons.prems(1) by (simp add: stop_node_def)
  moreover have "stopped (stop_node i ns ! j)" using Cons.prems by (rule stop_node_keeps)
  ultimately show ?case using Cons.IH by simp
qed

lemma fold_stop_node_stops:
  "i \<in> set is \<Longrightarrow> i < length ns \<Longrightarrow> stopped (fold stop_node is ns ! i)"
proof (induction "is" arbitrary: ns)
  case Nil
  then show ?case by simp
next
  case (Cons k "is")
  show ?case
  proof (cases "k = i")
    case True
    have "i < length (stop_node i ns)" using Cons.prems(2) by (simp add: stop_node_def)
    moreover have "stopped (stop_node i ns ! i)" using Cons.prems(2) by (simp add: stop_node_def)
    ultimately show ?thesis using True fold_stop_node_keeps by simp
  next
    case False
    then have "i \<in> set is" using Cons.prems(1) by simp
    moreover have "i < length (stop_node k ns)" using Cons.prems(2) by (simp add: stop_node_def)
    ultimately show ?thesis using Cons.IH by simp
  qed
qed



subsection \<open>Gapless scheduling\<close>




subsection \<open>The video interval\<close>

text \<open>
  In every run, the \<open>status\<close> constant that a session's callbacks and an interval have
  closed over is not \<open>Connected\<close>: \<open>connect\<close> is the button's handler only in a render
  with \<open>isConnected\<close> false, and \<open>status\<close> is \<open>Connected\<close> only while \<open>isConnected\<close>
  is true. So the test \<open>status !== 'connected'\<close> succeeds at every firing.
\<close>

lemma stale_disconnect: "stale st \<Longrightarrow> stale (disconnect st)"
  by (auto simp: stale_def disconnect_def stopAudioPlayback_def close_session_def)

lemma stale_addLog: "stale (addLog msg st) = stale st"
  by (simp add: stale_def addLog_def)

lemma stale_connect: "stale st \<Longrightarrow> rendered \<noteq> Connected \<Longrightarrow> stale (connect rendered e st)"
  by (auto simp: stale_def connect_def addLog_def Let_def split: option.splits)

lemma stale_click:
  assumes "stale st"
  shows "stale (button_click e st)"
proof (cases "isConnected st")
  case True
  then show ?thesis using assms by (simp add: button_click_def stale_disconnect)
next
  case False
  then have "status st \<noteq> Connected" using assms by (auto simp: stale_def)
  then show ?thesis using assms False by (simp add: button_click_def stale_connect)
qed

lemma stale_onopen: "stale st \<Longrightarrow> stale (onopen c st)"
  by (auto simp: stale_def onopen_def addLog_def setupAudioInput_def startVideoStreaming_def
      split: option.splits)

lemma stale_playAudio_begin: "stale st \<Longrightarrow> stale (playAudio_begin st)"
  by (auto simp: stale_def playAudio_begin_def split: option.splits)

lemma stale_playAudio_resume: "stale st \<Longrightarrow> stale (playAudio_resume d st)"
  by (auto simp: stale_def playAudio_resume_def Let_def split: option.splits)

lemma stale_stop: "stale st \<Longrightarrow> stale (stopAudioPlayback st)"
  by (simp add: stale_def stopAudioPlayback_def)

lemma stale_onended: "stale st \<Longrightarrow> stale (onended i st)"
  by (simp add: stale_def onended_def)

lemma stale_send: "stale st \<Longrightarrow> \<not> is_frame m \<Longrightarrow> stale (send_media m outcome st)"
  by (auto simp: stale_def send_media_def split: option.splits)

lemma stale_tick:
  assumes "stale st"
  shows "stale (interval_tick k frame outcome st)"
proof (cases "k < length (intervals st) \<and> \<not> cleared (intervals st ! k)")
  case False
  then show ?thesis using assms by (auto simp: interval_tick_def)
next
  case True
  let ?iv = "(intervals st ! k)\<lparr> cleared := True \<rparr>"
  have "intervals st ! k \<in> set (intervals st)" using True by simp
  then have seen: "seen_status (intervals st ! k) \<noteq> Connected"
    using assms by (simp add: stale_def)
  have tick: "interval_tick k frame outcome st = st\<lparr> intervals := (intervals st)[k := ?iv] \<rparr>"
    using True seen by (simp add: interval_tick_def Let_def)
  have "\<forall>iv \<in> set ((intervals st)[k := ?iv]). seen_status iv \<noteq> Connected"
  proof
    fix iv
    assume "iv \<in> set ((intervals st)[k := ?iv])"
    then have "iv \<in> insert ?iv (set (intervals st))"
      using set_update_subset_insert by fastforce
    then show "seen_status iv \<noteq> Connected" using assms seen by (auto simp: stale_def)
  qed
  then show ?thesis using assms tick by (simp add: stale_def)
qed

lemma stale_clock: "stale st \<Longrightarrow> stale (clock_advance dt st)"
  by (auto simp: stale_def clock_advance_def split: option.splits)

lemma stale_handle: "stale st \<Longrightarrow> stale (handle ev st)"
  by (cases ev)
    (simp_all add: stale_click stale_onopen onmessage_def stale_playAudio_begin
      stale_playAudio_resume stale_stop stale_addLog stale_onended onclose_def onerror_def
      stale_disconnect onaudioprocess_def stale_send is_frame_def stale_tick stale_clock)

lemma stale_fold: "stale st \<Longrightarrow> stale (fold handle evs st)"
  by (induction evs arbitrary: st) (simp_all add: stale_handle)

lemma stale_run: "stale (run evs)"
  unfolding run_def by (rule stale_fold) (simp add: stale_def mounted_def)

lemma no_frame_is_ever_sent: "JpegFrame f \<notin> set (sent (run evs))"
  using stale_run [of evs] by (auto simp: stale_def is_frame_def)

text \<open>
  Claim C2. While the connection state is \<open>Connected\<close>, the interval started by
  \<open>startVideoStreaming\<close> is to capture and send one camera frame at each firing. It does
  not: on a freshly mounted panel the user clicks the button and the session opens; the
  state is \<open>Connected\<close> and the interval is running; its first firing, with the state
  still \<open>Connected\<close>, sends nothing and clears the interval.
\<close>

theorem video_interval_sends_nothing:
  "status (run [Click None, Open True]) = Connected \<and>
   map cleared (intervals (run [Click None, Open True])) = [False] \<and>
   status (run [Click None, Open True, Tick 0 ''/9j/4AAQSkZJRg'' SendOk]) = Connected \<and>
   sent (run [Click None, Open True, Tick 0 ''/9j/4AAQSkZJRg'' SendOk]) = [] \<and>
   map cleared (intervals (run [Click None, Open True, Tick 0 ''/9j/4AAQSkZJRg'' SendOk])) = [True]"
  by (simp add: live_defs)

subsection \<open>Interruption and teardown\<close>

text \<open>
  Claim C3. In any state, \<open>stopAudioPlayback\<close> calls \<open>stop\<close> on every source that is in
  the set of active sources, leaves that set empty, and leaves the playback cursor at
  zero, however many sources the set held.
\<close>

theorem stopAudioPlayback_resets:
  "sourcesRef (stopAudioPlayback st) = [] \<and>
   nextStartTimeRef (stopAudioPlayback st) = 0 \<and>
   (\<forall>i \<in> set (sourcesRef st).
      i < length (nodes st) \<longrightarrow> stopped (nodes (stopAudioPlayback st) ! i))"
  by (simp add: stopAudioPlayback_def fold_stop_node_stops)

theorem stopAudioPlayback_resets_witness:
  "sourcesRef two_queued = [0, 1] \<and>
   map stopped (nodes two_queued) = [False, False] \<and>
   nextStartTimeRef two_queued = 4 / 5 \<and>
   sourcesRef (stopAudioPlayback two_queued) = [] \<and>
   nextStartTimeRef (stopAudioPlayback two_queued) = 0 \<and>
   stopped (nodes (stopAudioPlayback two_queued) ! 0) \<and>
   stopped (nodes (stopAudioPlayback two_queued) ! 1)"
proof -
  have s: "sourcesRef two_queued = [0, 1]" by (simp add: two_queued_def live_defs)
  have n: "map stopped (nodes two_queued) = [False, False]" by (simp add: two_queued_def live_defs)
  have c: "nextStartTimeRef two_queued = 4 / 5" by (simp add: two_queued_def live_defs)
  have l: "length (nodes two_queued) = 2" by (simp add: two_queued_def live_defs)
  show ?thesis using stopAudioPlayback_resets [of two_queued] s n c l by simp
qed

text \<open>
  In every run the members of the set of active sources are nodes that exist, so the
  side condition of the theorem above holds of every member.
\<close>

lemma sources_known_handle: "sources_known st \<Longrightarrow> sources_known (handle ev st)"
  by (cases ev)
    (auto simp: sources_known_def button_click_def disconnect_def stopAudioPlayback_def
      connect_def addLog_def onopen_def setupAudioInput_def startVideoStreaming_def
      onmessage_def playAudio_begin_def playAudio_resume_def onended_def onclose_def onerror_def
      onaudioprocess_def send_media_def
      interval_tick_def clock_advance_def Let_def less_Suc_eq split: option.splits)

lemma sources_known_fold: "sources_known st \<Longrightarrow> sources_known (fold handle evs st)"
  by (induction evs arbitrary: st) (simp_all add: sources_known_handle)

lemma sources_known_run: "sources_known (run evs)"
  unfolding run_def by (rule sources_known_fold) (simp add: sources_known_def mounted_def)

lemma disconnect_post:
  "status (disconnect st) = Disconnected \<and> \<not> isConnected (disconnect st) \<and>
   sourcesRef (disconnect st) = [] \<and> nextStartTimeRef (disconnect st) = 0"
  by (simp add: disconnect_def stopAudioPlayback_def)

text \<open>
  Claim C4. \<open>disconnect\<close> is defined on every state, whatever the connection state, and
  has no failing branch: each ref it dereferences is guarded. After one call, and after
  every further call, the state is \<open>Disconnected\<close>, the set of active sources is empty
  and the playback cursor is zero.
\<close>

theorem disconnect_repeated:
  "status ((disconnect ^^ Suc n) st) = Disconnected \<and>
   \<not> isConnected ((disconnect ^^ Suc n) st) \<and>
   sourcesRef ((disconnect ^^ Suc n) st) = [] \<and>
   nextStartTimeRef ((disconnect ^^ Suc n) st) = 0"
  by (simp add: disconnect_post)

subsection \<open>The cursor invariant\<close>




subsection \<open>Close and error callbacks\<close>




subsection \<open>Audio capture\<close>

text \<open>
  Claim C7. When \<open>sendRealtimeInput\<close> throws for a captured chunk, \<open>onaudioprocess\<close>
  leaves the whole state of the panel as it was: nothing is propagated and nothing is
  torn down. Whatever the outcome of the send, the connection state, the playback
  cursor and the set of active sources are unchanged.
\<close>

theorem onaudioprocess_send_failure:
  "onaudioprocess pcmBlob SendThrows st = st \<and>
   status (onaudioprocess pcmBlob outcome st) = status st \<and>
   isConnected (onaudioprocess pcmBlob outcome st) = isConnected st \<and>
   nextStartTimeRef (onaudioprocess pcmBlob outcome st) = nextStartTimeRef st \<and>
   sourcesRef (onaudioprocess pcmBlob outcome st) = sourcesRef st"
  by (simp add: onaudioprocess_def send_media_def split: option.splits)

section \<open>Properties of \<open>audioBufferToWav\<close>\<close>

declare interleave.simps [simp del] wav_loop.simps [simp del]

subsection \<open>The range of a scaled sample\<close>

lemma js_trunc_bounds:
  assumes "lo \<le> 0" "0 \<le> hi" "of_int lo \<le> r" "r \<le> of_int hi"
  shows "lo \<le> js_trunc r \<and> js_trunc r \<le> hi"
proof (cases "0 \<le> r")
  case True
  have t: "js_trunc r = \<lfloor>r\<rfloor>" using True by (simp add: js_trunc_def)
  have lower: "0 \<le> \<lfloor>r\<rfloor>" using True by (simp only: zero_le_floor)
  have upper: "\<lfloor>r\<rfloor> \<le> hi" using assms(4) by (simp add: floor_le_iff)
  show ?thesis using t lower upper assms(1) by linarith
next
  case False
  have t: "js_trunc r = \<lceil>r\<rceil>" using False by (simp add: js_trunc_def)
  have upper: "\<lceil>r\<rceil> \<le> 0" using False by (simp add: ceiling_le_iff)
  have lower: "lo \<le> \<lceil>r\<rceil>" using assms(3) by (simp add: le_ceiling_iff)
  show ?thesis using t lower upper assms(2) by linarith
qed

lemma ToInt32_small:
  assumes "- 32768 \<le> js_trunc r" "js_trunc r \<le> 32767"
  shows "ToInt32 (Finite r) = js_trunc r"
  using assms by (simp add: mod_pos_pos_trivial)

lemma clamp_cases:
  "Math_max (Finite (- 1)) (Math_min (Finite 1) x) = NaN \<or>
   (\<exists>r. Math_max (Finite (- 1)) (Math_min (Finite 1) x) = Finite r \<and> - 1 \<le> r \<and> r \<le> 1)"
  by (cases x) (auto simp: Math_max_def Math_min_def)

lemma scale_sample_range: "- 32768 \<le> scale_sample x \<and> scale_sample x \<le> 32767"
proof -
  consider "Math_max (Finite (- 1)) (Math_min (Finite 1) x) = NaN"
    | r where "Math_max (Finite (- 1)) (Math_min (Finite 1) x) = Finite r" "- 1 \<le> r" "r \<le> 1"
    using clamp_cases by blast
  then show ?thesis
  proof cases
    case 1
    then show ?thesis by (simp add: scale_sample_def)
  next
    case 2
    show ?thesis
    proof (cases "1 / 2 + r < 0")
      case True
      have "of_int (- 32768) \<le> r * 32768" "r * 32768 \<le> of_int 32767"
        using 2(2) True by simp_all
      then have b: "- 32768 \<le> js_trunc (r * 32768) \<and> js_trunc (r * 32768) \<le> 32767"
        using js_trunc_bounds [of "- 32768" 32767 "r * 32768"] by simp
      then have "ToInt32 (Finite (r * 32768)) = js_trunc (r * 32768)"
        using ToInt32_small by blast
      then show ?thesis using b 2(1) True by (simp add: scale_sample_def)
    next
      case False
      have "of_int (- 32768) \<le> r * 32767" "r * 32767 \<le> of_int 32767"
        using 2(2,3) False by simp_all
      then have b: "- 32768 \<le> js_trunc (r * 32767) \<and> js_trunc (r * 32767) \<le> 32767"
        using js_trunc_bounds [of "- 32768" 32767 "r * 32767"] by simp
      then have "ToInt32 (Finite (r * 32767)) = js_trunc (r * 32767)"
        using ToInt32_small by blast
      then show ?thesis using b 2(1) False by (simp add: scale_sample_def)
    qed
  qed
qed

subsection \<open>No write falls outside the buffer\<close>

lemma length_le_bytes: "length (le_bytes w v) = w"
  by (simp add: le_bytes_def)

lemma write_bytes_ok:
  "byteOffset + length bs \<le> length v \<Longrightarrow>
   \<exists>v'. write_bytes byteOffset bs v = Some v' \<and> length v' = length v"
  by (simp add: write_bytes_def)

lemma setUint32_ok:
  assumes "pos w + 4 \<le> length (view w)"
  shows "\<exists>w'. setUint32 d w = Some w' \<and> pos w' = pos w + 4 \<and>
           length (view w') = length (view w) \<and> offset w' = offset w \<and> written w' = written w"
proof -
  obtain v' where "write_bytes (pos w) (le_bytes 4 (int d)) (view w) = Some v'"
    and "length v' = length (view w)"
    using write_bytes_ok [of "pos w" "le_bytes 4 (int d)" "view w"] assms
    by (auto simp: length_le_bytes)
  then show ?thesis by (simp add: setUint32_def)
qed

lemma setUint16_ok:
  assumes "pos w + 2 \<le> length (view w)"
  shows "\<exists>w'. setUint16 d w = Some w' \<and> pos w' = pos w + 2 \<and>
           length (view w') = length (view w) \<and> offset w' = offset w \<and> written w' = written w"
proof -
  obtain v' where "write_bytes (pos w) (le_bytes 2 (int d)) (view w) = Some v'"
    and "length v' = length (view w)"
    using write_bytes_ok [of "pos w" "le_bytes 2 (int d)" "view w"] assms
    by (auto simp: length_le_bytes)
  then show ?thesis by (simp add: setUint16_def)
qed

lemma setInt16_ok:
  assumes "44 + offset w + 2 \<le> length (view w)"
  shows "\<exists>w'. setInt16 s w = Some w' \<and> pos w' = pos w \<and>
           length (view w') = length (view w) \<and> offset w' = offset w + 2 \<and>
           written w' = written w @ [s]"
proof -
  obtain v' where "write_bytes (44 + offset w) (le_bytes 2 s) (view w) = Some v'"
    and "length v' = length (view w)"
    using write_bytes_ok [of "44 + offset w" "le_bytes 2 s" "view w"] assms
    by (auto simp: length_le_bytes)
  then show ?thesis by (simp add: setInt16_def)
qed

lemma interleave_ok:
  assumes "44 + offset w + 2 * (numberOfChannels b - i) \<le> length (view w)"
  shows "\<exists>w'. interleave b i w = Some w' \<and> pos w' = pos w \<and>
           length (view w') = length (view w) \<and>
           offset w' = offset w + 2 * (numberOfChannels b - i) \<and>
           written w' = written w @
             map (\<lambda>i. scale_sample (channel_sample (ab_channels b) i (pos w)))
               [i..<numberOfChannels b]"
  using assms
proof (induction b i w rule: interleave.induct)
  case (1 b i w)
  show ?case
  proof (cases "i < numberOfChannels b")
    case False
    then show ?thesis by (simp add: interleave.simps [of b i w])
  next
    case True
    let ?s = "scale_sample (channel_sample (ab_channels b) i (pos w))"
    have "44 + offset w + 2 \<le> length (view w)" using "1.prems" True by simp
    from setInt16_ok [OF this, of ?s]
    obtain w1 where w1: "setInt16 ?s w = Some w1" "pos w1 = pos w"
      "length (view w1) = length (view w)" "offset w1 = offset w + 2"
      "written w1 = written w @ [?s]"
      by blast
    have room: "44 + offset w1 + 2 * (numberOfChannels b - Suc i) \<le> length (view w1)"
      using "1.prems" True w1 by simp
    from "1.IH" [OF True w1(1) room]
    obtain w' where w': "interleave b (Suc i) w1 = Some w'" "pos w' = pos w1"
      "length (view w') = length (view w1)"
      "offset w' = offset w1 + 2 * (numberOfChannels b - Suc i)"
      "written w' = written w1 @
         map (\<lambda>i. scale_sample (channel_sample (ab_channels b) i (pos w1)))
           [Suc i..<numberOfChannels b]"
      by blast
    have "interleave b i w = Some w'"
      using True w1(1) w'(1) by (simp add: interleave.simps [of b i w])
    moreover have "offset w' = offset w + 2 * (numberOfChannels b - i)"
      using w'(4) w1(4) True by simp
    moreover have "written w' = written w @
        map (\<lambda>i. scale_sample (channel_sample (ab_channels b) i (pos w))) [i..<numberOfChannels b]"
      using w'(5) w1(2,5) True by (simp add: upt_conv_Cons)
    ultimately show ?thesis using w'(2,3) w1(2,3) by simp
  qed
qed

lemma wav_loop_ok:
  assumes "44 + offset w + 2 * numberOfChannels b * (ab_length b - pos w) \<le> length (view w)"
  shows "\<exists>w'. wav_loop b w = Some w' \<and> length (view w') = length (view w) \<and>
           written w' = written w @
             concat (map (\<lambda>p. map (\<lambda>i. scale_sample (channel_sample (ab_channels b) i p))
                                   [0..<numberOfChannels b])
                         [pos w..<ab_length b])"
  using assms
proof (induction b w rule: wav_loop.induct)
  case (1 b w)
  show ?case
  proof (cases "pos w < ab_length b")
    case False
    then show ?thesis by (simp add: wav_loop.simps [of b w])
  next
    case True
    let ?c = "numberOfChannels b"
    have split: "ab_length b - pos w = Suc (ab_length b - Suc (pos w))" using True by simp
    have room1: "44 + offset w + 2 * (?c - 0) \<le> length (view w)"
      using "1.prems" by (simp add: split)
    from interleave_ok [OF room1]
    obtain w1 where w1: "interleave b 0 w = Some w1" "pos w1 = pos w"
      "length (view w1) = length (view w)" "offset w1 = offset w + 2 * ?c"
      "written w1 = written w @
         map (\<lambda>i. scale_sample (channel_sample (ab_channels b) i (pos w))) [0..<?c]"
      by auto
    let ?w2 = "w1\<lparr> pos := Suc (pos w) \<rparr>"
    have room2: "44 + offset ?w2 + 2 * ?c * (ab_length b - pos ?w2) \<le> length (view ?w2)"
      using "1.prems" w1(3,4) by (simp add: split)
    from "1.IH" [OF True w1(1) room2]
    obtain w' where w': "wav_loop b ?w2 = Some w'" "length (view w') = length (view ?w2)"
      "written w' = written ?w2 @
         concat (map (\<lambda>p. map (\<lambda>i. scale_sample (channel_sample (ab_channels b) i p)) [0..<?c])
                     [pos ?w2..<ab_length b])"
      by blast
    have "wav_loop b w = Some w'"
      using True w1(1) w'(1) by (simp add: wav_loop.simps [of b w])
    moreover have "written w' = written w @
        concat (map (\<lambda>p. map (\<lambda>i. scale_sample (channel_sample (ab_channels b) i p)) [0..<?c])
                    [pos w..<ab_length b])"
      using w'(3) w1(5) True by (simp add: upt_conv_Cons)
    ultimately show ?thesis using w'(2) w1(3) by simp
  qed
qed

text \<open>
  The function returns: the thirteen header writes end at byte 44, and the loop has
  room for every sample it writes. The loop starts at frame 44 (where the header left
  \<open>pos\<close>), so the samples written are those of the frames from 44 on.
\<close>

lemma wav_encode_ok:
  "\<exists>w. wav_encode b = Some w \<and>
        length (view w) = 44 + 2 * numberOfChannels b * ab_length b \<and>
        written w =
          concat (map (\<lambda>p. map (\<lambda>i. scale_sample (channel_sample (ab_channels b) i p))
                                [0..<numberOfChannels b])
                      [44..<ab_length b])"
proof -
  let ?c = "numberOfChannels b"
  let ?len = "ab_length b * ?c * 2 + 44"
  let ?w0 = "\<lparr> view = replicate ?len 0, pos = 0, offset = 0, written = [] \<rparr>"
  obtain w1 where w1: "setUint32 0x46464952 ?w0 = Some w1" "pos w1 = 4"
    "length (view w1) = ?len" "offset w1 = 0" "written w1 = []"
    using setUint32_ok [of ?w0 "0x46464952"] by auto
  obtain w2 where w2: "setUint32 (?len - 8) w1 = Some w2" "pos w2 = 8"
    "length (view w2) = ?len" "offset w2 = 0" "written w2 = []"
    using setUint32_ok [of w1 "?len - 8"] w1 by auto
  obtain w3 where w3: "setUint32 0x45564157 w2 = Some w3" "pos w3 = 12"
    "length (view w3) = ?len" "offset w3 = 0" "written w3 = []"
    using setUint32_ok [of w2 "0x45564157"] w2 by auto
  obtain w4 where w4: "setUint32 0x20746d66 w3 = Some w4" "pos w4 = 16"
    "length (view w4) = ?len" "offset w4 = 0" "written w4 = []"
    using setUint32_ok [of w3 "0x20746d66"] w3 by auto
  obtain w5 where w5: "setUint32 16 w4 = Some w5" "pos w5 = 20"
    "length (view w5) = ?len" "offset w5 = 0" "written w5 = []"
    using setUint32_ok [of w4 16] w4 by auto
  obtain w6 where w6: "setUint16 1 w5 = Some w6" "pos w6 = 22"
    "length (view w6) = ?len" "offset w6 = 0" "written w6 = []"
    using setUint16_ok [of w5 1] w5 by auto
  obtain w7 where w7: "setUint16 ?c w6 = Some w7" "pos w7 = 24"
    "length (view w7) = ?len" "offset w7 = 0" "written w7 = []"
    using setUint16_ok [of w6 ?c] w6 by auto
  obtain w8 where w8: "setUint32 (ab_sampleRate b) w7 = Some w8" "pos w8 = 28"
    "length (view w8) = ?len" "offset w8 = 0" "written w8 = []"
    using setUint32_ok [of w7 "ab_sampleRate b"] w7 by auto
  obtain w9 where w9: "setUint32 (ab_sampleRate b * 2 * ?c) w8 = Some w9" "pos w9 = 32"
    "length (view w9) = ?len" "offset w9 = 0" "written w9 = []"
    using setUint32_ok [of w8 "ab_sampleRate b * 2 * ?c"] w8 by auto
  obtain w10 where w10: "setUint16 (?c * 2) w9 = Some w10" "pos w10 = 34"
    "length (view w10) = ?len" "offset w10 = 0" "written w10 = []"
    using setUint16_ok [of w9 "?c * 2"] w9 by auto
  obtain w11 where w11: "setUint16 16 w10 = Some w11" "pos w11 = 36"
    "length (view w11) = ?len" "offset w11 = 0" "written w11 = []"
    using setUint16_ok [of w10 16] w10 by auto
  obtain w12 where w12: "setUint32 0x61746164 w11 = Some w12" "pos w12 = 40"
    "length (view w12) = ?len" "offset w12 = 0" "written w12 = []"
    using setUint32_ok [of w11 "0x61746164"] w11 by auto
  obtain w13 where w13: "setUint32 (?len - pos w12 - 4) w12 = Some w13" "pos w13 = 44"
    "length (view w13) = ?len" "offset w13 = 0" "written w13 = []"
    using setUint32_ok [of w12 "?len - pos w12 - 4"] w12 by auto
  have room: "44 + offset w13 + 2 * ?c * (ab_length b - pos w13) \<le> length (view w13)"
    using w13 by (simp add: diff_mult_distrib2 mult.commute mult.left_commute)
  from wav_loop_ok [OF room]
  obtain w where w: "wav_loop b w13 = Some w" "length (view w) = length (view w13)"
    "written w = written w13 @
       concat (map (\<lambda>p. map (\<lambda>i. scale_sample (channel_sample (ab_channels b) i p)) [0..<?c])
                   [pos w13..<ab_length b])"
    by blast
  have "wav_encode b = Some w"
    using w1(1) w2(1) w3(1) w4(1) w5(1) w6(1) w7(1) w8(1) w9(1) w10(1) w11(1) w12(1) w13(1) w(1)
    by (simp add: wav_encode_def Let_def)
  moreover have "length (view w) = 44 + 2 * ?c * ab_length b"
    using w(2) w13(3) by (simp add: mult.commute mult.left_commute)
  ultimately show ?thesis using w(3) w13(2,5) by simp
qed

text \<open>
  Claim C10. For every buffer, of \<open>c\<close> channels and \<open>n\<close> frames, \<open>audioBufferToWav\<close>
  returns, and what it returns has exactly \<open>44 + 2 * c * n\<close> bytes. Every integer it
  hands to \<open>setInt16\<close> for the data section is the clamped and scaled value of an input
  sample and lies between -32768 and 32767.
\<close>

theorem audioBufferToWav_size_and_range:
  "\<exists>w. wav_encode b = Some w \<and> audioBufferToWav b = Some (view w) \<and>
        length (view w) = 44 + 2 * numberOfChannels b * ab_length b \<and>
        written w =
          concat (map (\<lambda>p. map (\<lambda>i. scale_sample (channel_sample (ab_channels b) i p))
                                [0..<numberOfChannels b])
                      [44..<ab_length b]) \<and>
        (\<forall>v \<in> set (written w). - 32768 \<le> v \<and> v \<le> 32767)"
proof -
  from wav_encode_ok [of b]
  obtain w where w: "wav_encode b = Some w"
    "length (view w) = 44 + 2 * numberOfChannels b * ab_length b"
    "written w =
       concat (map (\<lambda>p. map (\<lambda>i. scale_sample (channel_sample (ab_channels b) i p))
                             [0..<numberOfChannels b])
                   [44..<ab_length b])"
    by blast
  have "\<forall>v \<in> set (written w). - 32768 \<le> v \<and> v \<le> 32767"
    unfolding w(3) using scale_sample_range by auto
  moreover have "audioBufferToWav b = Some (view w)"
    using w(1) by (simp add: audioBufferToWav_def)
  ultimately show ?thesis using w by blast
qed

lemma scale_sample_examples:
  "scale_sample (Finite 2) = 32767" "scale_sample (Finite (- (3 / 4))) = - 24576"
  "scale_sample (Finite (1 / 3)) = 10922" "scale_sample NaN = 0"
  by code_simp+

theorem audioBufferToWav_size_and_range_witness:
  "\<exists>w. wav_encode two_channels = Some w \<and> length (view w) = 228 \<and>
        written w = [32767, - 24576, 10922, 0] \<and>
        set (written w) \<noteq> {} \<and>
        (\<forall>v \<in> set (written w). - 32768 \<le> v \<and> v \<le> 32767)"
proof -
  have c: "numberOfChannels two_channels = 2" "ab_length two_channels = 46"
    by (simp_all add: numberOfChannels_def two_channels_def)
  have s: "channel_sample (ab_channels two_channels) 0 44 = Finite 2"
    "channel_sample (ab_channels two_channels) (Suc 0) 44 = Finite (- 3 / 4)"
    "channel_sample (ab_channels two_channels) 0 45 = Finite (1 / 3)"
    "channel_sample (ab_channels two_channels) (Suc 0) 45 = NaN"
    by (simp_all add: channel_sample_def two_channels_def nth_append)
  have r: "[44..<46] = [44, 45]" "[0..<2] = [0, Suc 0]"
    by (simp_all add: upt_rec)
  from audioBufferToWav_size_and_range [of two_channels]
  obtain w where w: "wav_encode two_channels = Some w"
    "length (view w) = 44 + 2 * numberOfChannels two_channels * ab_length two_channels"
    "written w =
       concat (map (\<lambda>p. map (\<lambda>i. scale_sample (channel_sample (ab_channels two_channels) i p))
                             [0..<numberOfChannels two_channels])
                   [44..<ab_length two_channels])"
    "\<forall>v \<in> set (written w). - 32768 \<le> v \<and> v \<le> 32767"
    by blast
  have "written w = [32767, - 24576, 10922, 0]"
    using w(3) by (simp add: c r s scale_sample_examples)
  moreover have "length (view w) = 228" using w(2) by (simp add: c)
  ultimately show ?thesis using w(1,4) by auto
qed

section \<open>Properties of the chat service and the chat panel\<close>

text \<open>
  Claim C8. \<open>sendChatMessage\<close> does not depend on its \<open>history\<close> argument: with the
  other arguments and the remote service the same, two histories give the same request
  and the same result.
\<close>

theorem sendChatMessage_ignores_history:
  "chat_request modelType message history1 images videos isThinkingMode sysInstruction =
   chat_request modelType message history2 images videos isThinkingMode sysInstruction \<and>
   sendChatMessage generateContent modelType message history1 images videos isThinkingMode
     sysInstruction =
   sendChatMessage generateContent modelType message history2 images videos isThinkingMode
     sysInstruction"
  by (simp add: sendChatMessage_def chat_request_def)

lemma click_at_most_one: "at_most_one s \<Longrightarrow> at_most_one (click t s)"
  by (cases t) (auto simp: at_most_one_def Let_def)

lemma fold_click_at_most_one: "at_most_one s \<Longrightarrow> at_most_one (fold click ts s)"
  by (induction ts arbitrary: s) (simp_all add: click_at_most_one)

text \<open>
  Claim C9. From settings in which at most one of \<open>useThinking\<close>, \<open>useSearch\<close> and
  \<open>useFast\<close> is true, a click on any of the three buttons, and so any sequence of
  clicks, leads to settings in which at most one is true. A click on a button whose
  flag is off turns that flag on and the other two off; a click on a button whose flag
  is on turns it off and leaves all three off.
\<close>

theorem toggles_mutually_exclusive:
  assumes "at_most_one s"
  shows "at_most_one (click t s) \<and>
         at_most_one (fold click ts s) \<and>
         (\<not> flag t s \<longrightarrow> (\<forall>t'. flag t' (click t s) = (t' = t))) \<and>
         (flag t s \<longrightarrow> (\<forall>t'. \<not> flag t' (click t s)))"
proof -
  have a: "at_most_one (click t s)" using assms by (rule click_at_most_one)
  have b: "at_most_one (fold click ts s)" using assms by (rule fold_click_at_most_one)
  have c: "flag t' (click t s) = (t' = t)" if "\<not> flag t s" for t'
    using that by (cases t; cases t') (simp_all add: Let_def)
  have d: "\<not> flag t' (click t s)" if "flag t s" for t'
    using that assms by (cases t; cases t') (auto simp: at_most_one_def Let_def)
  from a b c d show ?thesis by blast
qed

theorem toggles_mutually_exclusive_witness:
  "at_most_one \<lparr> useSearch = True, useThinking = False, useFast = False \<rparr> \<and>
   \<not> flag Reasoning \<lparr> useSearch = True, useThinking = False, useFast = False \<rparr> \<and>
   click Reasoning \<lparr> useSearch = True, useThinking = False, useFast = False \<rparr> =
     \<lparr> useSearch = False, useThinking = True, useFast = False \<rparr> \<and>
   at_most_one (click Reasoning \<lparr> useSearch = True, useThinking = False, useFast = False \<rparr>) \<and>
   flag Search \<lparr> useSearch = True, useThinking = False, useFast = False \<rparr> \<and>
   click Search \<lparr> useSearch = True, useThinking = False, useFast = False \<rparr> =
     \<lparr> useSearch = False, useThinking = False, useFast = False \<rparr> \<and>
   at_most_one (click Search \<lparr> useSearch = True, useThinking = False, useFast = False \<rparr>) \<and>
   at_most_one (fold click [Fast, Reasoning, Reasoning, Search]
                  \<lparr> useSearch = True, useThinking = False, useFast = False \<rparr>)"
proof -
  let ?s = "\<lparr> useSearch = True, useThinking = False, useFast = False \<rparr>"
  have h: "at_most_one ?s" by (simp add: at_most_one_def)
  show ?thesis
    using h toggles_mutually_exclusive [OF h, of Reasoning "[Fast, Reasoning, Reasoning, Search]"]
      toggles_mutually_exclusive [OF h, of Search "[]"]
    by (simp add: Let_def)
qed

end
